theory Spec2Isabelle
  imports Main Complex_Main "HOL-Library.Char_ord" "HOL-Library.List_Lexorder"
    "HOL-Library.Product_Lexorder"
begin

section \<open>Python primitives used by the sources\<close>

text \<open>
  Python strings are sequences of code points; the model uses \<^typ>\<open>string\<close>, whose
  characters stand for the code points below 256.  Python integers are \<^typ>\<open>int\<close>.
\<close>

definition py_index :: "nat \<Rightarrow> int \<Rightarrow> nat" where
  \<comment> \<open>how a slice bound is clipped: a negative bound counts from the end\<close>
  "py_index n i = (if i < 0 then nat (max 0 (int n + i)) else min n (nat i))"

definition py_slice :: "'a list \<Rightarrow> int \<Rightarrow> int \<Rightarrow> 'a list" where
  \<comment> \<open>\<^verbatim>\<open>xs[a:b]\<close>\<close>
  "py_slice xs a b = take (py_index (length xs) b - py_index (length xs) a)
                          (drop (py_index (length xs) a) xs)"

section \<open>Chunker: \<^verbatim>\<open>chunk_text\<close> (rag\_index.py, embed\_texts.py)\<close>

text \<open>
  \<^verbatim>\<open>
  def chunk_text(text, max_chars=1100, overlap=200):
      if len(text) <= max_chars:
          return [text]
      chunks = []
      start = 0
      while start < len(text):
          end = min(len(text), start + max_chars)
          chunks.append(text[start:end])
          if end >= len(text):
              break
          start = max(0, end - overlap)
      return chunks
  \<close>
  The \<^verbatim>\<open>while\<close> loop has no bound of its own, so it is a partial function:
  \<open>None\<close> is the loop that never returns.  The variant in embed\_texts.py differs in
  the default of \<^verbatim>\<open>max_chars\<close> (1200) and in the test \<^verbatim>\<open>end == len(text)\<close>, which
  is the same test because \<open>end \<le> len(text)\<close>.
\<close>

partial_function (option) chunk_loop ::
  "string \<Rightarrow> int \<Rightarrow> int \<Rightarrow> int \<Rightarrow> string list \<Rightarrow> string list option" where
  "chunk_loop text max_chars overlap start chunks =
     (if start < int (length text) then
        (let end = min (int (length text)) (start + max_chars);
             chunks' = chunks @ [py_slice text start end]
         in if end \<ge> int (length text) then Some chunks'
            else chunk_loop text max_chars overlap (max 0 (end - overlap)) chunks')
      else Some chunks)"

definition chunk_text :: "string \<Rightarrow> int \<Rightarrow> int \<Rightarrow> string list option" where
  "chunk_text text max_chars overlap =
     (if int (length text) \<le> max_chars then Some [text]
      else chunk_loop text max_chars overlap 0 [])"

text \<open>
  The windows \<open>[start, end)\<close> the loop visits, in order: the same loop, recording the
  bounds of each slice instead of the slice.
\<close>

partial_function (option) window_loop ::
  "nat \<Rightarrow> int \<Rightarrow> int \<Rightarrow> int \<Rightarrow> (int \<times> int) list \<Rightarrow> (int \<times> int) list option" where
  "window_loop n max_chars overlap start ws =
     (if start < int n then
        (let end = min (int n) (start + max_chars);
             ws' = ws @ [(start, end)]
         in if end \<ge> int n then Some ws'
            else window_loop n max_chars overlap (max 0 (end - overlap)) ws')
      else Some ws)"

definition chunk_windows :: "nat \<Rightarrow> int \<Rightarrow> int \<Rightarrow> (int \<times> int) list option" where
  "chunk_windows n max_chars overlap =
     (if int n \<le> max_chars then Some [(0, int n)]
      else window_loop n max_chars overlap 0 [])"

definition covered :: "(int \<times> int) list \<Rightarrow> int set" where
  "covered ws = (\<Union>(a, b) \<in> set ws. {a..<b})"

text \<open>
  The shape of the list of windows of a text of length \<open>n\<close> that is walked from
  \<open>s\<close>: every window but the last is \<open>[s, s + max_chars)\<close> and ends before \<open>n\<close>,
  the next one starts \<open>overlap\<close> before that end, and the last one ends at \<open>n\<close>.
\<close>

fun window_chain :: "int \<Rightarrow> int \<Rightarrow> int \<Rightarrow> int \<Rightarrow> (int \<times> int) list \<Rightarrow> bool" where
  "window_chain n mc ov s [] = False"
| "window_chain n mc ov s [(a, b)] = (a = s \<and> b = n \<and> n \<le> s + mc)"
| "window_chain n mc ov s ((a, b) # w # ws) =
     (a = s \<and> b = s + mc \<and> b < n \<and> window_chain n mc ov (b - ov) (w # ws))"

declare chunk_loop.simps [code] window_loop.simps [code]

section \<open>More Python primitives\<close>

datatype py_error =
    RuntimeError string
  | FileNotFoundError string
  | ValueError
  | TypeError
  | IndexError
  | AxisError

definition LF :: char where "LF = CHR 0x0A"
definition CR :: char where "CR = CHR 0x0D"

definition py_isspace :: "char \<Rightarrow> bool" where
  \<comment> \<open>\<^verbatim>\<open>str.isspace\<close> on the code points below 256\<close>
  "py_isspace c = (of_char c \<in> {9, 10, 11, 12, 13, 28, 29, 30, 31, 32, 133, 160 :: nat})"

definition py_linebreak :: "char \<Rightarrow> bool" where
  \<comment> \<open>the line boundaries of \<^verbatim>\<open>str.splitlines\<close> below 256; \<^verbatim>\<open>\r\n\<close> is one boundary\<close>
  "py_linebreak c = (of_char c \<in> {10, 11, 12, 13, 28, 29, 30, 133 :: nat})"

definition py_isdigit_char :: "char \<Rightarrow> bool" where
  \<comment> \<open>\<^verbatim>\<open>0\<close>..\<^verbatim>\<open>9\<close> and the superscripts two, three and one, the digits below 256\<close>
  "py_isdigit_char c = (let n = (of_char c :: nat) in (48 \<le> n \<and> n \<le> 57) \<or> n \<in> {178, 179, 185})"

definition py_isdigit :: "string \<Rightarrow> bool" where
  \<comment> \<open>\<^verbatim>\<open>str.isdigit\<close>: at least one character, and all of them digits\<close>
  "py_isdigit s = (s \<noteq> [] \<and> list_all py_isdigit_char s)"

definition py_strip :: "string \<Rightarrow> string" where
  "py_strip s = rev (dropWhile py_isspace (rev (dropWhile py_isspace s)))"

fun splitlines_from :: "string \<Rightarrow> string \<Rightarrow> string list" where
  "splitlines_from cur [] = (if cur = [] then [] else [cur])"
| "splitlines_from cur [c] = (if py_linebreak c then [cur] else [cur @ [c]])"
| "splitlines_from cur (c # c' # cs) =
     (if c = CR \<and> c' = LF then cur # splitlines_from [] cs
      else if py_linebreak c then cur # splitlines_from [] (c' # cs)
      else splitlines_from (cur @ [c]) (c' # cs))"

definition splitlines :: "string \<Rightarrow> string list" where
  "splitlines s = splitlines_from [] s"

fun py_join :: "string \<Rightarrow> string list \<Rightarrow> string" where
  "py_join sep [] = []"
| "py_join sep [x] = x"
| "py_join sep (x # y # ys) = x @ sep @ py_join sep (y # ys)"

text \<open>
  \<^verbatim>\<open>re.sub(r"\n{m,}", rep, text)\<close>: every maximal run of at least \<open>m\<close> newlines becomes
  \<open>rep\<close>, shorter runs stay.  \<open>run\<close> counts the newlines of the run being read.
\<close>

definition flush_run :: "nat \<Rightarrow> string \<Rightarrow> nat \<Rightarrow> string" where
  "flush_run m rep run = (if m \<le> run then rep else replicate run LF)"

fun re_sub_scan :: "nat \<Rightarrow> string \<Rightarrow> nat \<Rightarrow> string \<Rightarrow> string" where
  "re_sub_scan m rep run [] = flush_run m rep run"
| "re_sub_scan m rep run (c # cs) =
     (if c = LF then re_sub_scan m rep (Suc run) cs
      else flush_run m rep run @ c # re_sub_scan m rep 0 cs)"

definition re_sub_newlines :: "nat \<Rightarrow> string \<Rightarrow> string \<Rightarrow> string" where
  "re_sub_newlines m rep s = re_sub_scan m rep 0 s"

section \<open>TextNormalizer: \<^verbatim>\<open>html_to_text\<close>\<close>

text \<open>
  Both variants parse the markup with BeautifulSoup, drop script, style and noscript
  elements, replace every table by its rows and read
  \<^verbatim>\<open>text = soup.get_text("\n", strip=True)\<close>.  These are library calls; their result is
  the parameter \<open>soup_text\<close>.  What the repository's code does with \<^verbatim>\<open>text\<close> follows.

  rag\_index.py:
  \<^verbatim>\<open>
      text = re.sub(r"\n{3,}", "\n\n", text)
      lines = [ln.strip() for ln in text.splitlines() if ln.strip()]
      return "\n".join(lines)
  \<close>
  html\_to\_text.py (imported by embed\_texts.py):
  \<^verbatim>\<open>
      text = re.sub(r"\n{2,}", "\n", text)
      return text
  \<close>
\<close>

definition rag_index_html_to_text :: "(string \<Rightarrow> string) \<Rightarrow> string \<Rightarrow> string" where
  "rag_index_html_to_text soup_text html =
     (let text = soup_text html;
          text = re_sub_newlines 3 [LF, LF] text;
          lines = map py_strip (filter (\<lambda>ln. py_strip ln \<noteq> []) (splitlines text))
      in py_join [LF] lines)"

definition html_to_text :: "(string \<Rightarrow> string) \<Rightarrow> string \<Rightarrow> string" where
  "html_to_text soup_text html =
     (let text = soup_text html;
          text = re_sub_newlines 2 [LF] text
      in text)"

fun newline_run :: "string \<Rightarrow> bool" where
  \<comment> \<open>two newlines in a row somewhere\<close>
  "newline_run (a # b # cs) = ((a = LF \<and> b = LF) \<or> newline_run (b # cs))"
| "newline_run _ = False"

definition blank_line :: "string \<Rightarrow> bool" where
  \<comment> \<open>some line is empty after trimming\<close>
  "blank_line s = list_ex (\<lambda>ln. py_strip ln = []) (splitlines s)"

section \<open>VectorIndex: build (rag\_index.py, embed\_texts.py)\<close>

text \<open>
  The index is the dictionary \<^verbatim>\<open>{"vectors": ..., "metas": ..., "chunks": ...}\<close>; a
  metadata entry is \<^verbatim>\<open>{"source": name, "chunk_id": i}\<close>.  The vectors an
  index file holds are real numbers; the normalisation of the build is written over the
  reals, its rounding left out.
\<close>

record meta =
  source :: string
  chunk_id :: nat

record index =
  vectors :: "real list list"
  metas :: "meta list"
  chunks :: "string list"

text \<open>
  numpy: \<^verbatim>\<open>np.array(rows, dtype="float32")\<close> of a list of lists is a matrix when the rows
  have one length, the one-dimensional empty array of shape \<open>(0,)\<close> for the empty list,
  and raises ValueError for ragged rows.
\<close>

datatype ndarray = Array1 "real list" | Array2 "real list list"

definition np_array :: "real list list \<Rightarrow> py_error + ndarray" where
  "np_array rows =
     (case rows of
        [] \<Rightarrow> Inr (Array1 [])
      | r # rs \<Rightarrow> if list_all (\<lambda>r'. length r' = length r) rs then Inr (Array2 rows)
                 else Inl ValueError)"

definition l2_norm :: "real list \<Rightarrow> real" where
  "l2_norm v = sqrt (sum_list (map (\<lambda>x. x * x) v))"

definition unit_vector :: "real list \<Rightarrow> real list" where
  \<comment> \<open>\<^verbatim>\<open>v / (np.linalg.norm(v) + 1e-10)\<close>\<close>
  "unit_vector v = map (\<lambda>x. x / (l2_norm v + 1 / 10 ^ 10)) v"

definition normalize_rows :: "ndarray \<Rightarrow> py_error + real list list" where
  \<comment> \<open>\<^verbatim>\<open>arr / (np.linalg.norm(arr, axis=1, keepdims=True) + 1e-10)\<close>, then \<^verbatim>\<open>.tolist()\<close>;
      a one-dimensional array has no axis 1\<close>
  "normalize_rows arr =
     (case arr of Array1 v \<Rightarrow> Inl AxisError | Array2 rows \<Rightarrow> Inr (map unit_vector rows))"

definition is_html :: "string \<Rightarrow> bool" where
  \<comment> \<open>the names \<^verbatim>\<open>glob("*.html")\<close> keeps\<close>
  "is_html name = (5 \<le> length name \<and> drop (length name - 5) name = ''.html'')"

text \<open>
  \<^verbatim>\<open>
  def build_index_from_dir(data_dir, index_path):
      files = sorted(list(pdir.glob("*.html")))
      if not files:
          raise RuntimeError(f"No .html files found under {data_dir}")
      all_chunks = []; metas = []
      for f in files:
          html = f.read_text(encoding="utf-8", errors="ignore")
          txt = html_to_text(html)
          chunks = chunk_text(txt)
          for i, ch in enumerate(chunks):
              metas.append({"source": str(f.name), "chunk_id": i})
              all_chunks.append(ch)
      vectors = embed_texts(all_chunks)
      arr = np.array(vectors, dtype="float32")
      norms = np.linalg.norm(arr, axis=1, keepdims=True) + 1e-10
      arr = arr / norms
      payload = {"vectors": arr.tolist(), "metas": metas, "chunks": all_chunks}
      p.write_text(json.dumps(payload, ensure_ascii=False), encoding="utf-8")
      return payload
  \<close>
  The directory is the list of its entries (name, decoded content); the files written
  are a map from path to payload, passed in and returned.  The embedding service is the
  parameter \<open>embed_texts\<close>; it may raise.  \<open>h2t\<close> and \<open>max_chars\<close> are the \<^verbatim>\<open>html_to_text\<close>
  and the default of \<^verbatim>\<open>chunk_text\<close> of the module: rag\_index.py and embed\_texts.py
  differ in nothing else but the wording of the message.
\<close>

type_synonym directory = "(string \<times> string) list"
type_synonym store = "string \<rightharpoonup> index"
type_synonym embedder = "string list \<Rightarrow> py_error + real list list"

fun collect_chunks ::
  "(string \<Rightarrow> string) \<Rightarrow> int \<Rightarrow> directory \<Rightarrow> string list \<Rightarrow> meta list
   \<Rightarrow> (string list \<times> meta list) option" where
  "collect_chunks h2t max_chars [] all_chunks all_metas = Some (all_chunks, all_metas)"
| "collect_chunks h2t max_chars ((name, html) # files) all_chunks all_metas =
     (case chunk_text (h2t html) max_chars 200 of
        None \<Rightarrow> None
      | Some chs \<Rightarrow>
          collect_chunks h2t max_chars files
            (all_chunks @ chs)
            (all_metas @ map (\<lambda>i. \<lparr>source = name, chunk_id = i\<rparr>) [0..<length chs]))"

definition build_index ::
  "(string \<Rightarrow> string) \<Rightarrow> int \<Rightarrow> string \<Rightarrow> embedder \<Rightarrow> string \<Rightarrow> directory \<Rightarrow> string \<Rightarrow> store
   \<Rightarrow> ((py_error + index) \<times> store) option" where
  "build_index h2t max_chars wording embed_texts data_dir dir index_path files_written =
     (let files = sort_key fst (filter (\<lambda>(name, html). is_html name) dir) in
      if files = [] then
        Some (Inl (RuntimeError (''No .html files found '' @ wording @ '' '' @ data_dir)),
              files_written)
      else
        case collect_chunks h2t max_chars files [] [] of
          None \<Rightarrow> None
        | Some (all_chunks, all_metas) \<Rightarrow>
            (case embed_texts all_chunks of
               Inl e \<Rightarrow> Some (Inl e, files_written)
             | Inr vecs \<Rightarrow>
                 (case np_array vecs of
                    Inl e \<Rightarrow> Some (Inl e, files_written)
                  | Inr arr \<Rightarrow>
                      (case normalize_rows arr of
                         Inl e \<Rightarrow> Some (Inl e, files_written)
                       | Inr rows \<Rightarrow>
                           (let payload = \<lparr>vectors = rows, metas = all_metas, chunks = all_chunks\<rparr>
                            in Some (Inr payload, files_written(index_path \<mapsto> payload)))))))"

definition rag_index_build_index_from_dir ::
  "(string \<Rightarrow> string) \<Rightarrow> embedder \<Rightarrow> string \<Rightarrow> directory \<Rightarrow> string \<Rightarrow> store
   \<Rightarrow> ((py_error + index) \<times> store) option" where
  "rag_index_build_index_from_dir soup_text =
     build_index (rag_index_html_to_text soup_text) 1100 ''under''"

definition build_index_from_dir ::
  "(string \<Rightarrow> string) \<Rightarrow> embedder \<Rightarrow> string \<Rightarrow> directory \<Rightarrow> string \<Rightarrow> store
   \<Rightarrow> ((py_error + index) \<times> store) option" where
  \<comment> \<open>embed\_texts.py\<close>
  "build_index_from_dir soup_text = build_index (html_to_text soup_text) 1200 ''in''"


section \<open>VectorIndex: search (rag\_index.py)\<close>

















section \<open>SchemaValidator (app\_streamlit.py)\<close>

text \<open>
  A JSON value as \<^verbatim>\<open>json.loads\<close> returns it.  A dictionary is the list of its items in
  order; its keys are distinct.  JSON numbers with a fraction or an exponent are floats
  and are not part of the model.
\<close>

datatype json =
    JNull
  | JBool bool
  | JInt int
  | JStr string
  | JList "json list"
  | JDict "(string \<times> json) list"

definition truthy :: "json \<Rightarrow> bool" where
  "truthy v =
     (case v of
        JNull \<Rightarrow> False
      | JBool b \<Rightarrow> b
      | JInt n \<Rightarrow> n \<noteq> 0
      | JStr s \<Rightarrow> s \<noteq> []
      | JList xs \<Rightarrow> xs \<noteq> []
      | JDict d \<Rightarrow> d \<noteq> [])"

definition py_or :: "json \<Rightarrow> json \<Rightarrow> json" where
  \<comment> \<open>\<^verbatim>\<open>v or w\<close>\<close>
  "py_or v w = (if truthy v then v else w)"

definition py_get :: "(string \<times> json) list \<Rightarrow> string \<Rightarrow> json \<Rightarrow> json" where
  \<comment> \<open>\<^verbatim>\<open>d.get(k, default)\<close>\<close>
  "py_get d k dflt = (case map_of d k of None \<Rightarrow> dflt | Some v \<Rightarrow> v)"

definition digit_char :: "nat \<Rightarrow> char" where
  "digit_char n = ''0123456789'' ! n"

fun str_nat :: "nat \<Rightarrow> string" where
  "str_nat n = (if n < 10 then [digit_char n] else str_nat (n div 10) @ [digit_char (n mod 10)])"

declare str_nat.simps [simp del]

definition str_int :: "int \<Rightarrow> string" where
  "str_int i = (if i < 0 then CHR ''-'' # str_nat (nat (- i)) else str_nat (nat i))"

text \<open>
  \<^verbatim>\<open>str(v)\<close>.  For a list or a dictionary it is the \<^verbatim>\<open>repr\<close>, in which a string stands
  between quotes; the escapes \<^verbatim>\<open>repr\<close> writes inside the quotes are not modelled.
\<close>

fun py_repr :: "json \<Rightarrow> string" where
  "py_repr JNull = ''None''"
| "py_repr (JBool b) = (if b then ''True'' else ''False'')"
| "py_repr (JInt n) = str_int n"
| "py_repr (JStr s) = [CHR 0x27] @ s @ [CHR 0x27]"
| "py_repr (JList xs) = ''['' @ py_join '', '' (map py_repr xs) @ '']''"
| "py_repr (JDict d) =
     ''{'' @ py_join '', '' (map (\<lambda>kv. [CHR 0x27] @ fst kv @ [CHR 0x27] @ '': '' @ py_repr (snd kv)) d)
     @ ''}''"

definition py_str :: "json \<Rightarrow> string" where
  "py_str v = (case v of JStr s \<Rightarrow> s | _ \<Rightarrow> py_repr v)"

text \<open>
  \<^verbatim>\<open>
  def deep_keys(d, prefix=""):
      out = []
      for k, v in d.items():
          path = f"{prefix}.{k}" if prefix else k
          if isinstance(v, dict):
              out.extend(deep_keys(v, path))
          else:
              out.append(path)
      return out
  \<close>
\<close>

fun deep_keys :: "(string \<times> json) list \<Rightarrow> string \<Rightarrow> string list" where
  "deep_keys [] prefix = []"
| "deep_keys ((k, v) # items) prefix =
     (let path = (if prefix \<noteq> [] then prefix @ ''.'' @ k else k)
      in (case v of JDict d \<Rightarrow> deep_keys d path | _ \<Rightarrow> [path]) @ deep_keys items prefix)"

definition date_fields :: "(string \<times> json) list" where
  "date_fields = [(''day'', JStr ''''), (''month'', JStr ''''), (''year'', JStr '''')]"

definition REQUIRED_SCHEMA :: "(string \<times> json) list" where
  "REQUIRED_SCHEMA =
     [(''lastName'', JStr ''''),
      (''firstName'', JStr ''''),
      (''idNumber'', JStr ''''),
      (''gender'', JStr ''''),
      (''dateOfBirth'', JDict date_fields),
      (''address'', JDict
         [(''street'', JStr ''''),
          (''houseNumber'', JStr ''''),
          (''entrance'', JStr ''''),
          (''apartment'', JStr ''''),
          (''city'', JStr ''''),
          (''postalCode'', JStr ''''),
          (''poBox'', JStr '''')]),
      (''landlinePhone'', JStr ''''),
      (''mobilePhone'', JStr ''''),
      (''jobType'', JStr ''''),
      (''dateOfInjury'', JDict date_fields),
      (''timeOfInjury'', JStr ''''),
      (''accidentLocation'', JStr ''''),
      (''accidentAddress'', JStr ''''),
      (''accidentDescription'', JStr ''''),
      (''injuredBodyPart'', JStr ''''),
      (''signature'', JStr ''''),
      (''formFillingDate'', JDict date_fields),
      (''formReceiptDateAtClinic'', JDict date_fields),
      (''medicalInstitutionFields'', JDict
         [(''healthFundMember'', JStr ''''),
          (''natureOfAccident'', JStr ''''),
          (''medicalDiagnoses'', JStr '''')])]"

text \<open>
  The issues are the messages the validator appends:
  \<^item> \<open>MissingPaths ps\<close>: \<^verbatim>\<open>f"Missing keys/paths: {missing}"\<close>;
  \<^item> \<open>ExtraPaths ps\<close>: \<^verbatim>\<open>f"Unexpected extra keys/paths: {extras}"\<close>;
  \<^item> \<open>IdNumberFormat\<close>: \<^verbatim>\<open>"idNumber must be exactly 9 digits (or empty)."\<close>;
  \<^item> \<open>DateFormat label f w\<close>: \<^verbatim>\<open>f"{label}.f must be w digits (or empty)."\<close>, for
    \<open>f\<close> among day, month, year and \<open>w\<close> 2 or 4.
\<close>

datatype issue =
    MissingPaths "string list"
  | ExtraPaths "string list"
  | IdNumberFormat
  | DateFormat string string nat

text \<open>
  \<^verbatim>\<open>
  def check_date(node, label):
      d = str(node.get("day", "") or "")
      m = str(node.get("month", "") or "")
      y = str(node.get("year", "") or "")
      if any([d, m, y]):
          if not (len(d) == 2 and d.isdigit()):
              issues.append(f"{label}.day must be 2 digits (or empty).")
          if not (len(m) == 2 and m.isdigit()):
              issues.append(f"{label}.month must be 2 digits (or empty).")
          if not (len(y) == 4 and y.isdigit()):
              issues.append(f"{label}.year must be 4 digits (or empty).")
  \<close>
  The model returns the issues the call appends.
\<close>

definition field_str :: "(string \<times> json) list \<Rightarrow> string \<Rightarrow> string" where
  \<comment> \<open>\<^verbatim>\<open>str(node.get(key, "") or "")\<close>\<close>
  "field_str node key = py_str (py_or (py_get node key (JStr '''')) (JStr ''''))"

definition check_date :: "(string \<times> json) list \<Rightarrow> string \<Rightarrow> issue list" where
  "check_date node label =
     (let d = field_str node ''day'';
          m = field_str node ''month'';
          y = field_str node ''year''
      in if list_ex (\<lambda>s. s \<noteq> []) [d, m, y] then
           (if \<not> (length d = 2 \<and> py_isdigit d) then [DateFormat label ''day'' 2] else [])
           @ (if \<not> (length m = 2 \<and> py_isdigit m) then [DateFormat label ''month'' 2] else [])
           @ (if \<not> (length y = 4 \<and> py_isdigit y) then [DateFormat label ''year'' 4] else [])
         else [])"

definition date_keys :: "string list" where
  "date_keys = [''dateOfBirth'', ''dateOfInjury'', ''formFillingDate'', ''formReceiptDateAtClinic'']"

definition date_node :: "(string \<times> json) list \<Rightarrow> string \<Rightarrow> (string \<times> json) list" where
  \<comment> \<open>\<^verbatim>\<open>payload.get(date_key, {}) if isinstance(payload.get(date_key), dict) else {}\<close>\<close>
  "date_node payload date_key =
     (case map_of payload date_key of Some (JDict node) \<Rightarrow> node | _ \<Rightarrow> [])"

text \<open>
  \<^verbatim>\<open>
  def validate_schema(payload):
      issues = []
      required_paths = set(deep_keys(REQUIRED_SCHEMA))
      got_paths = set(deep_keys(payload)) if isinstance(payload, dict) else set()
      missing = sorted(list(required_paths - got_paths))
      extras = sorted(list(got_paths - required_paths))
      if missing:
          issues.append(f"Missing keys/paths: {missing}")
      if extras:
          issues.append(f"Unexpected extra keys/paths: {extras}")
      if isinstance(payload, dict):
          idn = str(payload.get("idNumber", "") or "")
          if idn and (not idn.isdigit() or len(idn) != 9):
              issues.append("idNumber must be exactly 9 digits (or empty).")
          (check_date)
          for date_key in ["dateOfBirth", "dateOfInjury", "formFillingDate",
                           "formReceiptDateAtClinic"]:
              node = payload.get(date_key, {}) if isinstance(payload.get(date_key), dict) else {}
              check_date(node, date_key)
      return issues
  \<close>
  A Python set is modelled by a list without duplicates; \<^verbatim>\<open>sorted\<close> orders strings by
  code point, which is the lexicographic order on \<^typ>\<open>string\<close>.
\<close>

definition got_paths :: "json \<Rightarrow> string list" where
  "got_paths payload = (case payload of JDict d \<Rightarrow> remdups (deep_keys d []) | _ \<Rightarrow> [])"

definition required_paths :: "string list" where
  "required_paths = remdups (deep_keys REQUIRED_SCHEMA [])"

definition set_minus :: "string list \<Rightarrow> string list \<Rightarrow> string list" where
  "set_minus xs ys = filter (\<lambda>x. x \<notin> set ys) xs"

definition id_issues :: "(string \<times> json) list \<Rightarrow> issue list" where
  "id_issues payload =
     (let idn = field_str payload ''idNumber''
      in if idn \<noteq> [] \<and> (\<not> py_isdigit idn \<or> length idn \<noteq> 9) then [IdNumberFormat] else [])"

definition validate_schema :: "json \<Rightarrow> issue list" where
  "validate_schema payload =
     (let missing = sort (set_minus required_paths (got_paths payload));
          extras = sort (set_minus (got_paths payload) required_paths);
          issues = (if missing \<noteq> [] then [MissingPaths missing] else [])
                   @ (if extras \<noteq> [] then [ExtraPaths extras] else [])
      in case payload of
           JDict d \<Rightarrow>
             issues @ id_issues d @ concat (map (\<lambda>date_key. check_date (date_node d date_key) date_key) date_keys)
         | _ \<Rightarrow> issues)"

text \<open>
  The validator as section 4.4 of the specification words it, to compare with
  \<open>validate_schema\<close>.

  Key-paths: the payload is flattened into the set of its dot-joined key-paths,
  recursing into nested mappings; a path that reaches a value that is not a mapping
  ends there.  \<open>item_paths\<close> gives each path as the list of its keys.
\<close>

fun item_paths :: "(string \<times> json) list \<Rightarrow> string list list" where
  "item_paths [] = []"
| "item_paths ((k, v) # items) =
     (case v of JDict d \<Rightarrow> map ((#) k) (item_paths d) | _ \<Rightarrow> [[k]]) @ item_paths items"

definition spec_key_paths :: "json \<Rightarrow> string set" where
  "spec_key_paths payload =
     (case payload of JDict d \<Rightarrow> set (map (py_join ''.'') (item_paths d)) | _ \<Rightarrow> {})"

text \<open>
  Format checks, applied only if the payload is a mapping.  idNumber: if present and
  non-empty, exactly 9 ASCII digits.  Each of the four date groups: each sub-field that
  is present and non-empty is checked on its own, day and month exactly 2 digits, year
  exactly 4 digits; a missing or empty sub-field is no error.  The text of a field is
  read as \<open>validate_schema\<close> reads it (\<open>field_str\<close>); the specification gives no other
  reading of a value that is not a string.
\<close>

definition ascii_digit :: "char \<Rightarrow> bool" where
  "ascii_digit c = (48 \<le> (of_char c :: nat) \<and> (of_char c :: nat) \<le> 57)"

definition spec_digits :: "nat \<Rightarrow> string \<Rightarrow> bool" where
  \<comment> \<open>exactly \<open>w\<close> digits\<close>
  "spec_digits w s = (length s = w \<and> list_all ascii_digit s)"

definition spec_field_ok :: "nat \<Rightarrow> string \<Rightarrow> bool" where
  \<comment> \<open>empty, or exactly \<open>w\<close> digits\<close>
  "spec_field_ok w s = (s = [] \<or> spec_digits w s)"

definition spec_date_ok :: "(string \<times> json) list \<Rightarrow> bool" where
  "spec_date_ok node =
     (spec_field_ok 2 (field_str node ''day'')
      \<and> spec_field_ok 2 (field_str node ''month'')
      \<and> spec_field_ok 4 (field_str node ''year''))"

definition spec_format_ok :: "json \<Rightarrow> bool" where
  "spec_format_ok payload =
     (case payload of
        JDict d \<Rightarrow> spec_field_ok 9 (field_str d ''idNumber'')
                  \<and> list_all (\<lambda>date_key. spec_date_ok (date_node d date_key)) date_keys
      | _ \<Rightarrow> True)"

definition spec_valid :: "json \<Rightarrow> bool" where
  \<comment> \<open>the payloads for which the specification's validator returns no issue\<close>
  "spec_valid payload =
     (spec_key_paths payload = spec_key_paths (JDict REQUIRED_SCHEMA) \<and> spec_format_ok payload)"

definition with_date_of_birth :: "json \<Rightarrow> json" where
  \<comment> \<open>the template's own payload with the given date of birth\<close>
  "with_date_of_birth dob =
     JDict (map (\<lambda>(k, v). if k = ''dateOfBirth'' then (k, dob) else (k, v)) REQUIRED_SCHEMA)"

definition with_id_number :: "json \<Rightarrow> json" where
  \<comment> \<open>the template's own payload with the given idNumber\<close>
  "with_id_number idn =
     JDict (map (\<lambda>(k, v). if k = ''idNumber'' then (k, idn) else (k, v)) REQUIRED_SCHEMA)"

section \<open>Chunker: results\<close>

lemma chunk_loop_diverges:
  assumes "chunk_loop t mc ov s acc = Some y"
  shows "\<not> (0 \<le> s \<and> s < int (length t) \<and> s + mc < int (length t) \<and> mc \<le> ov)"
proof (rule chunk_loop.raw_induct
        [where P = "\<lambda>t mc ov s acc y. \<not> (0 \<le> s \<and> s < int (length t) \<and> s + mc < int (length t) \<and> mc \<le> ov)",
         OF _ assms], goal_cases)
  case (1 f t mc ov s acc y)
  show ?case
  proof
    assume inv: "0 \<le> s \<and> s < int (length t) \<and> s + mc < int (length t) \<and> mc \<le> ov"
    let ?s' = "max 0 (s + mc - ov)"
    from inv have e: "min (int (length t)) (s + mc) = s + mc" by simp
    from 1(2) inv have "f t mc ov ?s' (acc @ [py_slice t s (s + mc)]) = Some y"
      by (simp add: e Let_def split: if_splits)
    from 1(1) [OF this] inv show False by auto
  qed
qed

lemma chunk_text_diverges:
  "mc < int (length t) \<Longrightarrow> mc \<le> ov \<Longrightarrow> t \<noteq> [] \<Longrightarrow> chunk_text t mc ov = None"
proof (cases "chunk_text t mc ov")
  case (Some y)
  assume a: "mc < int (length t)" "mc \<le> ov" "t \<noteq> []"
  with Some have "chunk_loop t mc ov 0 [] = Some y" by (simp add: chunk_text_def)
  from chunk_loop_diverges[OF this] a show ?thesis by simp
qed simp

lemma loops_return:
  assumes "0 \<le> ov" "ov < mc"
  shows "0 \<le> s \<Longrightarrow> s < int (length t) \<Longrightarrow>
         \<exists>ws. window_loop (length t) mc ov s W = Some (W @ ws)
            \<and> chunk_loop t mc ov s acc = Some (acc @ map (\<lambda>(a, b). py_slice t a b) ws)
            \<and> window_chain (int (length t)) mc ov s ws"
proof (induction "nat (int (length t) - s)" arbitrary: s W acc rule: less_induct)
  case less
  let ?n = "int (length t)"
  show ?case
  proof (cases "?n \<le> s + mc")
    case True
    then have e: "min ?n (s + mc) = ?n" by simp
    have "window_loop (length t) mc ov s W = Some (W @ [(s, ?n)])"
      using less.prems by (subst window_loop.simps) (simp add: e)
    moreover have "chunk_loop t mc ov s acc = Some (acc @ [py_slice t s ?n])"
      using less.prems by (subst chunk_loop.simps) (simp add: e)
    ultimately show ?thesis using True by (intro exI[of _ "[(s, ?n)]"]) simp
  next
    case False
    then have e: "min ?n (s + mc) = s + mc" by simp
    let ?s' = "s + mc - ov"
    have s': "0 \<le> ?s'" "?s' < ?n" "nat (?n - ?s') < nat (?n - s)"
      using assms less.prems False by auto
    have m: "max 0 ?s' = ?s'" using s' by simp
    from less.hyps[OF s'(3) s'(1) s'(2), of "W @ [(s, s + mc)]" "acc @ [py_slice t s (s + mc)]"]
    obtain ws where ws: "window_loop (length t) mc ov ?s' (W @ [(s, s + mc)]) = Some ((W @ [(s, s + mc)]) @ ws)"
      "chunk_loop t mc ov ?s' (acc @ [py_slice t s (s + mc)]) =
         Some ((acc @ [py_slice t s (s + mc)]) @ map (\<lambda>(a, b). py_slice t a b) ws)"
      "window_chain ?n mc ov ?s' ws" by blast
    have "window_loop (length t) mc ov s W = Some (W @ (s, s + mc) # ws)"
      using less.prems False ws(1) by (subst window_loop.simps) (simp add: e m)
    moreover have "chunk_loop t mc ov s acc = Some (acc @ map (\<lambda>(a, b). py_slice t a b) ((s, s + mc) # ws))"
      using less.prems False ws(2) by (subst chunk_loop.simps) (simp add: e m)
    moreover have "window_chain ?n mc ov s ((s, s + mc) # ws)"
      using ws(3) False by (cases ws) auto
    ultimately show ?thesis by blast
  qed
qed

lemma window_chain_covered:
  "window_chain n mc ov s ws \<Longrightarrow> 0 \<le> ov \<Longrightarrow> ov < mc \<Longrightarrow> s < n \<Longrightarrow> covered ws = {s..<n}"
proof (induction n mc ov s ws rule: window_chain.induct)
  case (3 n mc ov s a b w ws)
  from "3.prems" have ab: "a = s" "b = s + mc" "b < n"
    and ch: "window_chain n mc ov (b - ov) (w # ws)" by auto
  have "covered (w # ws) = {b - ov..<n}"
    using "3.IH" [OF ch] "3.prems" ab by simp
  moreover have "covered ((a, b) # w # ws) = {a..<b} \<union> covered (w # ws)"
    by (simp add: covered_def)
  ultimately show ?case using "3.prems" ab by auto
qed (auto simp: covered_def)


lemma py_slice_nonneg:
  "0 \<le> a \<Longrightarrow> b \<le> int (length xs) \<Longrightarrow> a \<le> b \<Longrightarrow>
   py_slice xs a b = take (nat b - nat a) (drop (nat a) xs)"
  by (simp add: py_slice_def py_index_def min_def)

lemma py_slice_whole: "py_slice xs 0 (int (length xs)) = xs"
  by (simp add: py_slice_def py_index_def)

lemma chunk_loop_empty: "chunk_loop [] mc ov 0 [] = Some []"
  by (subst chunk_loop.simps) simp

lemma window_chain_head:
  "window_chain n mc ov s (w # ws) \<Longrightarrow>
   fst w = s \<and> snd w \<le> n \<and> (if ws = [] then snd w = n \<and> n \<le> s + mc else snd w = s + mc \<and> s + mc < n)"
  by (cases w; cases ws) auto

lemma window_chain_adjacent:
  "window_chain n mc ov s ws \<Longrightarrow> Suc i < length ws \<Longrightarrow> 0 \<le> s \<Longrightarrow> 0 \<le> ov \<Longrightarrow> ov < mc \<Longrightarrow>
   \<exists>a b'. 0 \<le> a \<and> ws ! i = (a, a + mc) \<and> ws ! Suc i = (a + mc - ov, b')
         \<and> a + mc < b' \<and> b' \<le> n"
proof (induction n mc ov s ws arbitrary: i rule: window_chain.induct)
  case (3 n mc ov s a b w ws)
  from "3.prems"(1) have ab: "a = s" "b = s + mc" "b < n"
    and ch: "window_chain n mc ov (b - ov) (w # ws)" by auto
  show ?case
  proof (cases i)
    case 0
    from window_chain_head[OF ch] ab "3.prems" have
      "fst w = s + mc - ov" "s + mc < snd w" "snd w \<le> n"
      by (auto split: if_splits)
    then show ?thesis using 0 ab "3.prems" by (cases w) auto
  next
    case (Suc j)
    with "3.prems" have j: "Suc j < length (w # ws)" by simp
    have "0 \<le> b - ov" using ab "3.prems" by simp
    from "3.IH" [OF ch j this "3.prems"(4,5)] Suc show ?thesis by simp
  qed
qed simp_all

lemma overlap_slices:
  assumes "0 \<le> a" "0 \<le> ov" "ov < mc" "a + mc < b'" "b' \<le> int (length t)"
  shows "drop (length (py_slice t a (a + mc)) - nat ov) (py_slice t a (a + mc))
         = take (nat ov) (py_slice t (a + mc - ov) b')"
proof -
  have 1: "py_slice t a (a + mc) = take (nat mc) (drop (nat a) t)"
    using assms by (subst py_slice_nonneg) (auto simp: nat_add_distrib)
  have 2: "py_slice t (a + mc - ov) b' = take (nat b' - nat (a + mc - ov)) (drop (nat (a + mc - ov)) t)"
    using assms by (subst py_slice_nonneg) auto
  have len: "length (take (nat mc) (drop (nat a) t)) = nat mc"
    using assms by auto
  have 3: "nat mc - nat ov + nat a = nat (a + mc - ov)" using assms by auto
  have 4: "nat mc - (nat mc - nat ov) = nat ov" using assms by auto
  have 5: "min (nat ov) (nat b' - nat (a + mc - ov)) = nat ov" using assms by auto
  show ?thesis
    unfolding 1 2 len by (simp add: drop_take 3 4 5)
qed

lemma chunk_runs:
  assumes "0 \<le> ov" "ov < mc"
  shows "\<exists>ws. chunk_windows (length t) mc ov = Some ws
           \<and> chunk_text t mc ov = Some (map (\<lambda>(a, b). py_slice t a b) ws)
           \<and> (if int (length t) \<le> mc then ws = [(0, int (length t))]
               else window_chain (int (length t)) mc ov 0 ws)"
proof (cases "int (length t) \<le> mc")
  case True
  then show ?thesis by (simp add: chunk_windows_def chunk_text_def py_slice_whole)
next
  case False
  with assms have "0 < int (length t)" by linarith
  from loops_return[OF assms _ this, of "[]" "[]"] False
  show ?thesis by (auto simp: chunk_windows_def chunk_text_def)
qed

lemma chunk_overlap_all_pairs:
  assumes "max_chars < int (length t)" "0 \<le> overlap"
    and "chunk_text t max_chars overlap = Some cs" "Suc i < length cs"
  shows "drop (length (cs ! i) - nat overlap) (cs ! i) = take (nat overlap) (cs ! Suc i)"
proof -
  have lt: "overlap < max_chars"
  proof (rule ccontr)
    assume "\<not> overlap < max_chars"
    then have le: "max_chars \<le> overlap" by simp
    show False
    proof (cases "t = []")
      case True
      with assms(1,3) have "cs = []" by (simp add: chunk_text_def chunk_loop_empty)
      with assms(4) show False by simp
    next
      case False
      from chunk_text_diverges[OF assms(1) le False] assms(3) show False by simp
    qed
  qed
  from chunk_runs[OF assms(2) lt, of t] assms(1,3)
  obtain ws where ws: "cs = map (\<lambda>(a, b). py_slice t a b) ws"
    "window_chain (int (length t)) max_chars overlap 0 ws" by auto
  from assms(4) ws(1) have i: "Suc i < length ws" by simp
  from window_chain_adjacent[OF ws(2) i _ assms(2) lt]
  obtain a b' where ab: "0 \<le> a" "ws ! i = (a, a + max_chars)"
    "ws ! Suc i = (a + max_chars - overlap, b')" "a + max_chars < b'" "b' \<le> int (length t)"
    by auto
  have "cs ! i = py_slice t a (a + max_chars)"
    "cs ! Suc i = py_slice t (a + max_chars - overlap) b'"
    using i ab ws(1) by simp_all
  then show ?thesis using overlap_slices[OF ab(1) assms(2) lt ab(4,5)] by simp
qed

text \<open>
  C9.  For every text \<open>t\<close> with \<open>len(t) \<le> max_chars\<close>, \<open>chunk_text\<close> returns the
  one-element list \<open>[t]\<close>, the empty text included.
\<close>

theorem chunk_short_text:
  "int (length t) \<le> max_chars \<Longrightarrow> chunk_text t max_chars overlap = Some [t]"
  by (simp add: chunk_text_def)

theorem chunk_short_text_witness:
  "int (length '''') \<le> 1100 \<and> chunk_text '''' 1100 200 = Some ['''']
   \<and> int (length ''abc'') \<le> 3 \<and> chunk_text ''abc'' 3 1 = Some [''abc'']"
  using chunk_short_text [of "''''" 1100 200] chunk_short_text [of "''abc''" 3 1]
  by simp

text \<open>
  C3.  The claim: \<open>chunk_text\<close> requires \<open>overlap < max_chars\<close> as a precondition that
  is asserted or validated, and under it the function terminates and its windows cover
  \<open>[0, len(text))\<close>.  The source has no assertion and no validation: with
  \<open>overlap \<ge> max_chars\<close> and a text longer than \<open>max_chars\<close> the call is accepted and
  the loop never returns.
\<close>

theorem chunk_no_validation_counterexample:
  "chunk_text ''abc'' 2 2 = None"
  by (rule chunk_text_diverges) simp_all

text \<open>
  C3, as amended.  For every text and every \<open>0 \<le> overlap < max_chars\<close>, \<open>chunk_text\<close>
  returns, its chunks are the slices of the windows the loop visits, and the union of
  these windows is exactly \<open>[0, len(text))\<close>.
\<close>

theorem chunk_terminates_and_covers:
  assumes "0 \<le> overlap" "overlap < max_chars"
  shows "\<exists>ws. chunk_windows (length t) max_chars overlap = Some ws
           \<and> chunk_text t max_chars overlap = Some (map (\<lambda>(a, b). py_slice t a b) ws)
           \<and> covered ws = {0..<int (length t)}"
proof -
  from chunk_runs[OF assms, of t] obtain ws where
    ws: "chunk_windows (length t) max_chars overlap = Some ws"
        "chunk_text t max_chars overlap = Some (map (\<lambda>(a, b). py_slice t a b) ws)"
        "if int (length t) \<le> max_chars then ws = [(0, int (length t))]
         else window_chain (int (length t)) max_chars overlap 0 ws"
    by blast
  have "covered ws = {0..<int (length t)}"
  proof (cases "int (length t) \<le> max_chars")
    case True
    with ws(3) show ?thesis by (simp add: covered_def)
  next
    case False
    with ws(3) have ch: "window_chain (int (length t)) max_chars overlap 0 ws" by simp
    from False assms have "0 < int (length t)" by linarith
    from window_chain_covered[OF ch assms this] show ?thesis .
  qed
  with ws(1,2) show ?thesis by blast
qed

theorem chunk_terminates_and_covers_witness:
  "(0::int) \<le> 1 \<and> (1::int) < 4
   \<and> (\<exists>ws. chunk_windows (length ''abcdefghij'') 4 1 = Some ws
         \<and> chunk_text ''abcdefghij'' 4 1 = Some (map (\<lambda>(a, b). py_slice ''abcdefghij'' a b) ws)
         \<and> covered ws = {0..<int (length ''abcdefghij'')})"
  using chunk_terminates_and_covers [of 1 4 "''abcdefghij''"] by simp

text \<open>
  C4.  For every text \<open>t\<close> longer than \<open>max_chars\<close> and every pair of consecutive chunks
  \<open>(c\<^sub>i, c\<^sub>i\<^sub>+\<^sub>1)\<close> of \<open>chunk_text t\<close>, the last \<open>overlap\<close> characters of \<open>c\<^sub>i\<close> are the
  first \<open>overlap\<close> characters of \<open>c\<^sub>i\<^sub>+\<^sub>1\<close>, whenever \<open>c\<^sub>i\<^sub>+\<^sub>1\<close> is not the final chunk.
  (Lemma \<open>chunk_overlap_all_pairs\<close> shows the same for the final chunk.)
\<close>

theorem chunk_consecutive_overlap:
  assumes "max_chars < int (length t)" "0 \<le> overlap"
    and "chunk_text t max_chars overlap = Some cs"
    and "i + 2 < length cs"
  shows "drop (length (cs ! i) - nat overlap) (cs ! i) = take (nat overlap) (cs ! (i + 1))"
  using chunk_overlap_all_pairs [OF assms(1-3), of i] assms(4) by simp

theorem chunk_consecutive_overlap_witness:
  "(4::int) < int (length ''abcdefghij'') \<and> (0::int) \<le> 1
   \<and> chunk_text ''abcdefghij'' 4 1 = Some [''abcd'', ''defg'', ''ghij'']
   \<and> 0 + 2 < length [''abcd'', ''defg'', ''ghij'']
   \<and> drop (length ''abcd'' - nat 1) ''abcd'' = take (nat 1) ''defg''"
proof -
  have c: "chunk_text ''abcdefghij'' 4 1 = Some [''abcd'', ''defg'', ''ghij'']"
    by code_simp
  from chunk_consecutive_overlap [of 4 "''abcdefghij''" 1 "[''abcd'', ''defg'', ''ghij'']" 0] c
  show ?thesis by simp
qed

section \<open>SchemaValidator: results\<close>

lemma sort_Nil_iff: "sort xs = [] \<longleftrightarrow> xs = []"
  by (metis length_sort length_0_conv)

lemma set_minus_Nil_iff: "set_minus xs ys = [] \<longleftrightarrow> set xs \<subseteq> set ys"
  by (auto simp: set_minus_def filter_empty_conv)

lemma concat_map_Nil_iff: "concat (map f xs) = [] \<longleftrightarrow> list_all (\<lambda>x. f x = []) xs"
  by (induction xs) auto

text \<open>
  What \<open>validate_schema\<close> accepts.  A date group passes \<open>check_date\<close> when its three
  fields are all empty or all well-formed: once one field is filled, an empty one is
  reported too.
\<close>

lemma check_date_all_or_nothing:
  "check_date node label = [] \<longleftrightarrow>
     (field_str node ''day'' = [] \<and> field_str node ''month'' = [] \<and> field_str node ''year'' = [])
   \<or> (length (field_str node ''day'') = 2 \<and> py_isdigit (field_str node ''day'')
      \<and> length (field_str node ''month'') = 2 \<and> py_isdigit (field_str node ''month'')
      \<and> length (field_str node ''year'') = 4 \<and> py_isdigit (field_str node ''year''))"
  by (auto simp: check_date_def Let_def)

lemma validate_schema_Nil_iff:
  "validate_schema (JDict d) = [] \<longleftrightarrow>
     set (deep_keys d []) = set (deep_keys REQUIRED_SCHEMA [])
   \<and> id_issues d = []
   \<and> list_all (\<lambda>date_key. check_date (date_node d date_key) date_key = []) date_keys"
  by (auto simp: validate_schema_def sort_Nil_iff set_minus_Nil_iff concat_map_Nil_iff Let_def
        list_all_iff got_paths_def required_paths_def)

text \<open>
  C5.  The claim: \<open>validate_schema\<close> returns no issue if and only if the payload's set of
  dot-joined key-paths equals the template's and all the format checks (idNumber, the
  four date groups) pass.  With the checks as the specification words them
  (\<open>spec_valid\<close>), the code differs in both directions.  The payload of C2, the template
  with the date of birth \<open>(day "", month "01", year "1990")\<close>, is valid and gets the issue
  for its empty day: the same defect of \<open>check_date\<close>.  The template with the idNumber
  \<^verbatim>\<open>12345678\<close> followed by a superscript two is not valid, since that character is no
  ASCII digit, and gets no issue, since \<^verbatim>\<open>str.isdigit\<close> accepts it.
\<close>

theorem validate_differs_from_spec:
  "spec_valid (with_date_of_birth
        (JDict [(''day'', JStr ''''), (''month'', JStr ''01''), (''year'', JStr ''1990'')]))
   \<and> validate_schema (with_date_of_birth
        (JDict [(''day'', JStr ''''), (''month'', JStr ''01''), (''year'', JStr ''1990'')]))
     = [DateFormat ''dateOfBirth'' ''day'' 2]
   \<and> \<not> spec_valid (with_id_number (JStr (''12345678'' @ [CHR 0xB2])))
   \<and> validate_schema (with_id_number (JStr (''12345678'' @ [CHR 0xB2]))) = []"
proof -
  have 1: "spec_valid (with_date_of_birth
        (JDict [(''day'', JStr ''''), (''month'', JStr ''01''), (''year'', JStr ''1990'')]))"
    by code_simp
  have 2: "validate_schema (with_date_of_birth
        (JDict [(''day'', JStr ''''), (''month'', JStr ''01''), (''year'', JStr ''1990'')]))
      = [DateFormat ''dateOfBirth'' ''day'' 2]"
    by code_simp
  have 3: "\<not> spec_valid (with_id_number (JStr (''12345678'' @ [CHR 0xB2])))"
    by code_simp
  have 4: "validate_schema (with_id_number (JStr (''12345678'' @ [CHR 0xB2]))) = []"
    by code_simp
  from 1 2 3 4 show ?thesis by simp
qed

theorem validate_differs_from_spec_witness:
  "validate_schema (with_date_of_birth
        (JDict [(''day'', JStr ''''), (''month'', JStr ''01''), (''year'', JStr ''1990'')])) \<noteq> []
   \<and> validate_schema (with_id_number (JStr (''12345678'' @ [CHR 0xB2]))) = []"
  using validate_differs_from_spec by simp

text \<open>
  C2.  The claim: in a date group with some field filled, a missing or empty field
  produces no issue.  The source tests \<^verbatim>\<open>len(d) == 2 and d.isdigit()\<close> on every field once
  any of the three is non-empty, so the empty day of a date with month 01 and year 1990
  is reported, by the message that itself says \<^verbatim>\<open>(or empty)\<close>.  The same payload, whose
  key-paths are the template's, is the only issue of the whole validation.
\<close>

theorem check_date_flags_empty_field:
  "check_date [(''day'', JStr ''''), (''month'', JStr ''01''), (''year'', JStr ''1990'')] ''dateOfBirth''
     = [DateFormat ''dateOfBirth'' ''day'' 2]
   \<and> validate_schema (with_date_of_birth
        (JDict [(''day'', JStr ''''), (''month'', JStr ''01''), (''year'', JStr ''1990'')]))
     = [DateFormat ''dateOfBirth'' ''day'' 2]"
proof -
  have "check_date [(''day'', JStr ''''), (''month'', JStr ''01''), (''year'', JStr ''1990'')]
          ''dateOfBirth'' = [DateFormat ''dateOfBirth'' ''day'' 2]"
    by code_simp
  moreover have "validate_schema (with_date_of_birth
        (JDict [(''day'', JStr ''''), (''month'', JStr ''01''), (''year'', JStr ''1990'')]))
     = [DateFormat ''dateOfBirth'' ''day'' 2]"
    by code_simp
  ultimately show ?thesis by simp
qed

theorem check_date_flags_empty_field_witness:
  "validate_schema (with_date_of_birth
        (JDict [(''day'', JStr ''''), (''month'', JStr ''01''), (''year'', JStr ''1990'')]))
     \<noteq> []"
  using check_date_flags_empty_field by simp

lemma str_int_id: "str_int 123456789 = ''123456789''"
  by (simp add: str_int_def str_nat.simps digit_char_def)

lemma nine_digits: "py_isdigit ''123456789''" "length ''123456789'' = 9"
  by (simp_all add: py_isdigit_def py_isdigit_char_def)

lemma check_date_no_id_issue: "IdNumberFormat \<notin> set (check_date node label)"
  by (simp add: check_date_def Let_def)

lemma id_issues_cases: "id_issues d = [] \<or> id_issues d = [IdNumberFormat]"
  by (simp add: id_issues_def Let_def)

lemma id_issue_only_from_id_check:
  "IdNumberFormat \<in> set (validate_schema (JDict d)) \<longleftrightarrow> id_issues d \<noteq> []"
proof -
  have "IdNumberFormat \<in> set (validate_schema (JDict d)) \<longleftrightarrow> IdNumberFormat \<in> set (id_issues d)"
    by (simp add: validate_schema_def Let_def check_date_no_id_issue)
  then show ?thesis using id_issues_cases [of d] by auto
qed

lemma field_str_coerced:
  assumes "map_of d k = Some v"
  shows "v = JInt 123456789 \<Longrightarrow> field_str d k = ''123456789''"
    and "v = JNull \<or> v = JInt 0 \<or> v = JStr '''' \<Longrightarrow> field_str d k = ''''"
  using assms
  by (auto simp: field_str_def py_get_def py_or_def truthy_def py_str_def str_int_id)

text \<open>
  C10.  The idNumber check reads \<^verbatim>\<open>str(payload.get("idNumber", "") or "")\<close>: a payload
  whose idNumber is the integer 123456789 produces no idNumber issue, and one whose
  idNumber is None, 0 or the empty string is treated as absent and produces none either.
\<close>

theorem id_number_coerced:
  assumes "map_of d ''idNumber'' = Some v"
    and "v = JInt 123456789 \<or> v = JNull \<or> v = JInt 0 \<or> v = JStr ''''"
  shows "field_str d ''idNumber'' = (if v = JInt 123456789 then ''123456789'' else '''')
         \<and> IdNumberFormat \<notin> set (validate_schema (JDict d))"
proof -
  have f: "field_str d ''idNumber'' = (if v = JInt 123456789 then ''123456789'' else '''')"
  proof (cases "v = JInt 123456789")
    case True
    from field_str_coerced(1) [OF assms(1) True] True show ?thesis by simp
  next
    case False
    with assms(2) have "v = JNull \<or> v = JInt 0 \<or> v = JStr ''''" by simp
    from field_str_coerced(2) [OF assms(1) this] False show ?thesis by simp
  qed
  then have "id_issues d = []"
    using nine_digits by (simp add: id_issues_def)
  with f show ?thesis by (simp add: id_issue_only_from_id_check)
qed

theorem id_number_coerced_witness:
  "map_of [(''idNumber'', JInt 123456789)] ''idNumber'' = Some (JInt 123456789)
   \<and> field_str [(''idNumber'', JInt 123456789)] ''idNumber'' = ''123456789''
   \<and> IdNumberFormat \<notin> set (validate_schema (JDict [(''idNumber'', JInt 123456789)]))
   \<and> map_of [(''idNumber'', JInt 0)] ''idNumber'' = Some (JInt 0)
   \<and> field_str [(''idNumber'', JInt 0)] ''idNumber'' = ''''
   \<and> IdNumberFormat \<notin> set (validate_schema (JDict [(''idNumber'', JInt 0)]))"
  using id_number_coerced [of "[(''idNumber'', JInt 123456789)]" "JInt 123456789"]
        id_number_coerced [of "[(''idNumber'', JInt 0)]" "JInt 0"]
  by simp

section \<open>VectorIndex search: results\<close>



















lemma np_array_matrix:
  "rows \<noteq> [] \<Longrightarrow> list_all (\<lambda>v. length v = d) rows \<Longrightarrow> np_array rows = Inr (Array2 rows)"
  by (cases rows) (auto simp: np_array_def list_all_iff)




section \<open>VectorIndex build: results\<close>

lemma chunk_text_default:
  assumes "200 < mc"
  shows "\<exists>cs. chunk_text t mc 200 = Some cs \<and> cs \<noteq> []"
proof -
  from chunk_runs [of 200 mc t] assms obtain ws where
    ws: "chunk_text t mc 200 = Some (map (\<lambda>(a, b). py_slice t a b) ws)"
        "if int (length t) \<le> mc then ws = [(0, int (length t))]
         else window_chain (int (length t)) mc 200 0 ws"
    by auto
  have "ws \<noteq> []" using ws(2) by (auto split: if_splits)
  with ws(1) show ?thesis by simp
qed

lemma zip_enumerate:
  "(m, c) \<in> set (zip (map (\<lambda>i. \<lparr>source = name, chunk_id = i\<rparr>) [0..<length chs]) chs) \<Longrightarrow>
   source m = name \<and> chunk_id m < length chs \<and> c = chs ! chunk_id m"
  by (auto simp: in_set_zip)

lemma collect_chunks_ok:
  assumes "200 < mc"
  shows "\<exists>A' M'. collect_chunks h2t mc files A M = Some (A @ A', M @ M')
           \<and> length M' = length A' \<and> (files \<noteq> [] \<longrightarrow> A' \<noteq> [])
           \<and> (\<forall>(m, c) \<in> set (zip M' A').
                 \<exists>name html cs. (name, html) \<in> set files
                   \<and> chunk_text (h2t html) mc 200 = Some cs
                   \<and> source m = name \<and> chunk_id m < length cs \<and> c = cs ! chunk_id m)"
proof (induction files arbitrary: A M)
  case Nil
  show ?case by (intro exI [of _ "[]"]) simp
next
  case (Cons f files)
  obtain name html where f: "f = (name, html)" by (cases f)
  from chunk_text_default [OF assms, of "h2t html"] obtain chs where
    chs: "chunk_text (h2t html) mc 200 = Some chs" "chs \<noteq> []" by blast
  let ?ms = "map (\<lambda>i. \<lparr>source = name, chunk_id = i\<rparr>) [0..<length chs]"
  from Cons.IH [of "A @ chs" "M @ ?ms"] obtain A' M' where
    r: "collect_chunks h2t mc files (A @ chs) (M @ ?ms) = Some ((A @ chs) @ A', (M @ ?ms) @ M')"
       "length M' = length A'"
       "\<forall>(m, c) \<in> set (zip M' A').
           \<exists>name html cs. (name, html) \<in> set files
             \<and> chunk_text (h2t html) mc 200 = Some cs
             \<and> source m = name \<and> chunk_id m < length cs \<and> c = cs ! chunk_id m"
    by blast
  have 1: "collect_chunks h2t mc (f # files) A M = Some (A @ (chs @ A'), M @ (?ms @ M'))"
    using r(1) chs(1) by (simp add: f)
  have 2: "length (?ms @ M') = length (chs @ A')" using r(2) by simp
  have 3: "chs @ A' \<noteq> []" using chs(2) by simp
  have 4: "\<forall>(m, c) \<in> set (zip (?ms @ M') (chs @ A')).
           \<exists>name html cs. (name, html) \<in> set (f # files)
             \<and> chunk_text (h2t html) mc 200 = Some cs
             \<and> source m = name \<and> chunk_id m < length cs \<and> c = cs ! chunk_id m"
  proof (clarify)
    fix m c assume "(m, c) \<in> set (zip (?ms @ M') (chs @ A'))"
    then have "(m, c) \<in> set (zip ?ms chs) \<or> (m, c) \<in> set (zip M' A')"
      by (simp add: zip_append)
    then show "\<exists>name html cs. (name, html) \<in> set (f # files)
             \<and> chunk_text (h2t html) mc 200 = Some cs
             \<and> source m = name \<and> chunk_id m < length cs \<and> c = cs ! chunk_id m"
    proof
      assume "(m, c) \<in> set (zip ?ms chs)"
      from zip_enumerate [OF this] chs(1) f show ?thesis by auto
    next
      assume "(m, c) \<in> set (zip M' A')"
      with r(3) show ?thesis by fastforce
    qed
  qed
  from 1 2 3 4 show ?case by blast
qed

lemma html_files_set:
  "set (sort_key fst (filter (\<lambda>(name, html). is_html name) dir))
   = {(name, html). (name, html) \<in> set dir \<and> is_html name}"
  by auto

lemma build_index_ok:
  assumes mc: "200 < mc"
    and files: "filter (\<lambda>(name, html). is_html name) dir \<noteq> []"
    and embed: "\<And>texts. \<exists>vs. embed_texts texts = Inr vs \<and> length vs = length texts
                   \<and> list_all (\<lambda>v. length v = dimension) vs"
  shows "\<exists>idx. build_index h2t mc wording embed_texts data_dir dir index_path files_written
             = Some (Inr idx, files_written(index_path \<mapsto> idx))
         \<and> length (vectors idx) = length (chunks idx)
         \<and> length (metas idx) = length (chunks idx)
         \<and> (\<exists>vs. embed_texts (chunks idx) = Inr vs \<and> vectors idx = map unit_vector vs)
         \<and> (\<forall>i < length (chunks idx).
               \<exists>name html cs. (name, html) \<in> set dir \<and> is_html name
                 \<and> chunk_text (h2t html) mc 200 = Some cs
                 \<and> source (metas idx ! i) = name
                 \<and> chunk_id (metas idx ! i) < length cs
                 \<and> chunks idx ! i = cs ! chunk_id (metas idx ! i))"
proof -
  let ?files = "sort_key fst (filter (\<lambda>(name, html). is_html name) dir)"
  have ne: "?files \<noteq> []" using files by (metis length_sort length_0_conv)
  from collect_chunks_ok [OF mc, of h2t ?files "[]" "[]"] ne obtain A' M' where
    c: "collect_chunks h2t mc ?files [] [] = Some (A', M')" "length M' = length A'" "A' \<noteq> []"
       "\<forall>(m, c) \<in> set (zip M' A').
           \<exists>name html cs. (name, html) \<in> set ?files
             \<and> chunk_text (h2t html) mc 200 = Some cs
             \<and> source m = name \<and> chunk_id m < length cs \<and> c = cs ! chunk_id m"
    by auto
  from embed [of A'] obtain vs where
    vs: "embed_texts A' = Inr vs" "length vs = length A'" "list_all (\<lambda>v. length v = dimension) vs"
    by blast
  have "vs \<noteq> []" using vs(2) c(3) by auto
  then have arr: "np_array vs = Inr (Array2 vs)" using vs(3) by (rule np_array_matrix)
  let ?idx = "\<lparr>vectors = map unit_vector vs, metas = M', chunks = A'\<rparr>"
  have b: "build_index h2t mc wording embed_texts data_dir dir index_path files_written
             = Some (Inr ?idx, files_written(index_path \<mapsto> ?idx))"
    using ne by (simp add: build_index_def c(1) vs(1) arr normalize_rows_def Let_def)
  have each: "\<forall>i < length A'.
               \<exists>name html cs. (name, html) \<in> set dir \<and> is_html name
                 \<and> chunk_text (h2t html) mc 200 = Some cs
                 \<and> source (M' ! i) = name
                 \<and> chunk_id (M' ! i) < length cs
                 \<and> A' ! i = cs ! chunk_id (M' ! i)"
  proof (intro allI impI)
    fix i assume i: "i < length A'"
    then have "(M' ! i, A' ! i) \<in> set (zip M' A')"
      using c(2) by (auto simp: in_set_zip)
    with c(4) obtain name html cs where
      "(name, html) \<in> set ?files" "chunk_text (h2t html) mc 200 = Some cs"
      "source (M' ! i) = name" "chunk_id (M' ! i) < length cs" "A' ! i = cs ! chunk_id (M' ! i)"
      by fastforce
    moreover from this(1) have "(name, html) \<in> set dir \<and> is_html name"
      unfolding html_files_set by simp
    ultimately show "\<exists>name html cs. (name, html) \<in> set dir \<and> is_html name
                 \<and> chunk_text (h2t html) mc 200 = Some cs
                 \<and> source (M' ! i) = name
                 \<and> chunk_id (M' ! i) < length cs
                 \<and> A' ! i = cs ! chunk_id (M' ! i)" by blast
  qed
  show ?thesis
    by (rule exI [of _ ?idx]) (use b vs(1,2) c(2) each in simp)
qed

text \<open>
  C6.  \<open>build_index_from_dir\<close> applied to a directory without \<^verbatim>\<open>.html\<close> files fails
  (both modules raise \<^verbatim>\<open>RuntimeError("No .html files found ...")\<close>, the error the
  specification calls IndexBuildError) and writes no index: the files written are
  unchanged.
\<close>

theorem build_empty_fails:
  assumes "filter (\<lambda>(name, html). is_html name) dir = []"
  shows "rag_index_build_index_from_dir soup_text embed_texts data_dir dir index_path files_written
           = Some (Inl (RuntimeError (''No .html files found under '' @ data_dir)), files_written)
       \<and> build_index_from_dir soup_text embed_texts data_dir dir index_path files_written
           = Some (Inl (RuntimeError (''No .html files found in '' @ data_dir)), files_written)"
  using assms
  by (simp add: rag_index_build_index_from_dir_def build_index_from_dir_def build_index_def)

theorem build_empty_fails_witness:
  "filter (\<lambda>(name, html). is_html name) [(''notes.txt'', ''hello'')] = []
   \<and> rag_index_build_index_from_dir (\<lambda>html. html) (\<lambda>texts. Inr []) ''data''
        [(''notes.txt'', ''hello'')] ''index.json'' Map.empty
      = Some (Inl (RuntimeError ''No .html files found under data''), Map.empty)"
proof -
  have h: "filter (\<lambda>(name, html). is_html name) [(''notes.txt'', ''hello'')] = []"
    by (simp add: is_html_def)
  from build_empty_fails [OF h, of "\<lambda>html. html" "\<lambda>texts. Inr []" "''data''" "''index.json''" Map.empty] h
  show ?thesis by simp
qed

text \<open>
  C7.  For every directory with at least one \<^verbatim>\<open>.html\<close> file and an embedding service
  that returns one vector per input text, all of one dimension, \<open>build_index_from_dir\<close>
  of rag\_index.py returns and writes an index whose vectors, chunk texts and metadata
  have the same length, and entry \<open>i\<close> of each refers to the same chunk: the metadata
  name a file and a position in its chunks, the text is that chunk, and the vector is
  the normalised embedding of that text.
\<close>

theorem build_parallel_collections:
  assumes "filter (\<lambda>(name, html). is_html name) dir \<noteq> []"
    and "\<And>texts. \<exists>vs. embed_texts texts = Inr vs \<and> length vs = length texts
                   \<and> list_all (\<lambda>v. length v = dimension) vs"
  shows "\<exists>idx. rag_index_build_index_from_dir soup_text embed_texts data_dir dir index_path files_written
             = Some (Inr idx, files_written(index_path \<mapsto> idx))
         \<and> length (vectors idx) = length (chunks idx)
         \<and> length (metas idx) = length (chunks idx)
         \<and> (\<exists>vs. embed_texts (chunks idx) = Inr vs \<and> vectors idx = map unit_vector vs)
         \<and> (\<forall>i < length (chunks idx).
               \<exists>name html cs. (name, html) \<in> set dir \<and> is_html name
                 \<and> chunk_text (rag_index_html_to_text soup_text html) 1100 200 = Some cs
                 \<and> source (metas idx ! i) = name
                 \<and> chunk_id (metas idx ! i) < length cs
                 \<and> chunks idx ! i = cs ! chunk_id (metas idx ! i))"
  unfolding rag_index_build_index_from_dir_def
  by (rule build_index_ok [OF _ assms]) simp

theorem build_parallel_collections_witness:
  "filter (\<lambda>(name, html). is_html name) [(''a.html'', ''hello'')] \<noteq> []
   \<and> (\<exists>idx. rag_index_build_index_from_dir (\<lambda>html. html) (\<lambda>texts. Inr (map (\<lambda>t. [1, 0]) texts))
               ''data'' [(''a.html'', ''hello'')] ''index.json'' Map.empty
             = Some (Inr idx, [''index.json'' \<mapsto> idx])
         \<and> length (vectors idx) = length (chunks idx)
         \<and> length (metas idx) = length (chunks idx))"
proof -
  have h: "filter (\<lambda>(name, html). is_html name) [(''a.html'', ''hello'')] \<noteq> []"
    by (simp add: is_html_def)
  have e: "\<And>texts. \<exists>vs. (\<lambda>texts. Inr (map (\<lambda>t. [1, 0 :: real]) texts)) texts = (Inr vs :: py_error + real list list)
              \<and> length vs = length texts \<and> list_all (\<lambda>v. length v = 2) vs"
    by (simp add: list_all_iff)
  from build_parallel_collections [OF h e, of "\<lambda>html. html" "''data''" "''index.json''" Map.empty]
  obtain idx where
    "rag_index_build_index_from_dir (\<lambda>html. html) (\<lambda>texts. Inr (map (\<lambda>t. [1, 0]) texts))
               ''data'' [(''a.html'', ''hello'')] ''index.json'' Map.empty
             = Some (Inr idx, [''index.json'' \<mapsto> idx])"
    "length (vectors idx) = length (chunks idx)" "length (metas idx) = length (chunks idx)"
    by blast
  with h show ?thesis by blast
qed

section \<open>TextNormalizer: results\<close>

lemma flush_run_2: "flush_run 2 [LF] run = (if run = 0 then [] else [LF])"
proof (cases "2 \<le> run")
  case True
  then show ?thesis by (simp add: flush_run_def)
next
  case False
  then have "run = 0 \<or> run = 1" by auto
  then show ?thesis by (auto simp: flush_run_def)
qed

lemma newline_run_skip: "c \<noteq> LF \<Longrightarrow> newline_run (c # s) = newline_run s"
  by (cases s) auto

lemma newline_run_flush:
  "c \<noteq> LF \<Longrightarrow> newline_run (flush_run 2 [LF] run @ c # s) = newline_run s"
  by (cases s) (auto simp: flush_run_2)

lemma flush_run_no_run: "\<not> newline_run (flush_run 2 [LF] run)"
  by (simp add: flush_run_2)

lemma re_sub_scan_no_run: "\<not> newline_run (re_sub_scan 2 [LF] run s)"
  by (induction s arbitrary: run) (simp_all add: flush_run_no_run newline_run_flush)

lemma html_to_text_no_newline_run: "\<not> newline_run (html_to_text soup_text html)"
  by (simp add: html_to_text_def re_sub_newlines_def re_sub_scan_no_run)
lemma py_strip_Nil_iff: "py_strip s = [] \<longleftrightarrow> (\<forall>c \<in> set s. py_isspace c)"
proof
  assume "py_strip s = []"
  then have a: "\<forall>c \<in> set (dropWhile py_isspace s). py_isspace c"
    by (simp add: py_strip_def)
  have "dropWhile py_isspace s = []"
  proof (rule ccontr)
    assume ne: "dropWhile py_isspace s \<noteq> []"
    then have "\<not> py_isspace (hd (dropWhile py_isspace s))" by (rule hd_dropWhile)
    moreover have "hd (dropWhile py_isspace s) \<in> set (dropWhile py_isspace s)"
      using ne by (rule hd_in_set)
    ultimately show False using a by blast
  qed
  then show "\<forall>c \<in> set s. py_isspace c" by simp
next
  assume "\<forall>c \<in> set s. py_isspace c"
  then have "dropWhile py_isspace s = []" by simp
  then show "py_strip s = []" by (simp add: py_strip_def del: dropWhile_eq_Nil_conv)
qed

lemma py_strip_keeps_ink:
  assumes "py_strip s \<noteq> []"
  shows "\<exists>c \<in> set (py_strip s). \<not> py_isspace c"
proof -
  let ?zs = "dropWhile py_isspace (rev (dropWhile py_isspace s))"
  from assms have ne: "?zs \<noteq> []" by (simp add: py_strip_def)
  then have "\<not> py_isspace (hd ?zs)" by (rule hd_dropWhile)
  moreover have "hd ?zs \<in> set (py_strip s)" using ne by (simp add: py_strip_def)
  ultimately show ?thesis by blast
qed

lemma py_strip_twice: "py_strip s \<noteq> [] \<Longrightarrow> py_strip (py_strip s) \<noteq> []"
  using py_strip_keeps_ink [of s] by (auto simp: py_strip_Nil_iff)

lemma set_py_strip: "set (py_strip s) \<subseteq> set s"
  by (auto simp: py_strip_def dest!: set_dropWhileD)
lemma splitlines_from_clean:
  "\<forall>c \<in> set cur. \<not> py_linebreak c \<Longrightarrow>
   \<forall>ln \<in> set (splitlines_from cur s). \<forall>c \<in> set ln. \<not> py_linebreak c"
proof (induction cur s rule: splitlines_from.induct)
  case (1 cur)
  then show ?case by simp
next
  case (2 cur c)
  then show ?case by simp
next
  case (3 cur c c' cs)
  show ?case
  proof (cases "c = CR \<and> c' = LF")
    case True
    have e: "splitlines_from cur (c # c' # cs) = cur # splitlines_from [] cs"
      using True by simp
    have "\<forall>ln \<in> set (splitlines_from [] cs). \<forall>c \<in> set ln. \<not> py_linebreak c"
      using "3.IH"(1) [OF True] by simp
    with "3.prems" show ?thesis unfolding e by simp
  next
    case False
    show ?thesis
    proof (cases "py_linebreak c")
      case True
      have e: "splitlines_from cur (c # c' # cs) = cur # splitlines_from [] (c' # cs)"
        by (simp only: splitlines_from.simps False True if_False if_True)
      have "\<forall>ln \<in> set (splitlines_from [] (c' # cs)). \<forall>c \<in> set ln. \<not> py_linebreak c"
        using "3.IH"(2) [OF False True] by simp
      with "3.prems" show ?thesis unfolding e by simp
    next
      case nb: False
      have e: "splitlines_from cur (c # c' # cs) = splitlines_from (cur @ [c]) (c' # cs)"
        by (simp only: splitlines_from.simps False nb if_False)
      from "3.prems" nb have "\<forall>c \<in> set (cur @ [c]). \<not> py_linebreak c" by simp
      from "3.IH"(3) [OF False nb this] show ?thesis unfolding e .
    qed
  qed
qed

lemma CR_LF_linebreak: "py_linebreak CR" "py_linebreak LF" "CR \<noteq> LF"
  by (simp_all add: py_linebreak_def CR_def LF_def)

lemma splitlines_from_step:
  assumes "\<not> py_linebreak c"
  shows "splitlines_from cur (c # c' # cs) = splitlines_from (cur @ [c]) (c' # cs)"
proof -
  from assms CR_LF_linebreak(1) have "c \<noteq> CR" by auto
  then have "\<not> (c = CR \<and> c' = LF)" by simp
  then show ?thesis by (simp only: splitlines_from.simps assms if_False)
qed

lemma splitlines_from_LF:
  "splitlines_from cur (LF # rest) = cur # splitlines_from [] rest"
proof (cases rest)
  case Nil
  then show ?thesis by (simp add: CR_LF_linebreak)
next
  case (Cons c' cs)
  have "\<not> (LF = CR \<and> c' = LF)" using CR_LF_linebreak(3) by simp
  then show ?thesis
    unfolding Cons by (simp only: splitlines_from.simps CR_LF_linebreak(2) if_False if_True)
qed

lemma splitlines_from_line:
  "\<forall>c \<in> set l. \<not> py_linebreak c \<Longrightarrow>
   splitlines_from cur (l @ LF # rest) = (cur @ l) # splitlines_from [] rest"
proof (induction l arbitrary: cur)
  case Nil
  show ?case by (simp add: splitlines_from_LF)
next
  case (Cons c l)
  obtain d ds where ds: "l @ LF # rest = d # ds" by (cases "l @ LF # rest") auto
  have "splitlines_from cur ((c # l) @ LF # rest) = splitlines_from (cur @ [c]) (l @ LF # rest)"
    using Cons.prems splitlines_from_step [of c cur d ds] by (simp add: ds)
  with Cons.IH [of "cur @ [c]"] Cons.prems show ?case by simp
qed

lemma splitlines_from_last:
  "\<forall>c \<in> set l. \<not> py_linebreak c \<Longrightarrow> cur @ l \<noteq> [] \<Longrightarrow> splitlines_from cur l = [cur @ l]"
proof (induction l arbitrary: cur)
  case Nil
  then show ?case by simp
next
  case (Cons c l)
  show ?case
  proof (cases l)
    case Nil
    with Cons.prems show ?thesis by simp
  next
    case (Cons d ds)
    have "splitlines_from cur (c # l) = splitlines_from (cur @ [c]) l"
      using Cons.prems(1) splitlines_from_step [of c cur d ds] by (simp add: Cons)
    with Cons.IH [of "cur @ [c]"] Cons.prems(1) show ?thesis by simp
  qed
qed

lemma splitlines_py_join:
  "\<forall>l \<in> set lines. l \<noteq> [] \<and> (\<forall>c \<in> set l. \<not> py_linebreak c) \<Longrightarrow>
   splitlines (py_join [LF] lines) = lines"
proof (induction lines)
  case Nil
  show ?case by (simp add: splitlines_def)
next
  case (Cons x lines)
  show ?case
  proof (cases lines)
    case Nil
    with Cons.prems show ?thesis by (simp add: splitlines_def splitlines_from_last)
  next
    case (Cons y ys)
    have "splitlines (py_join [LF] (x # y # ys))
          = splitlines_from [] (x @ LF # py_join [LF] (y # ys))"
      by (simp add: splitlines_def)
    also have "\<dots> = x # splitlines_from [] (py_join [LF] (y # ys))"
      using Cons.prems by (subst splitlines_from_line) simp_all
    also have "splitlines_from [] (py_join [LF] (y # ys)) = y # ys"
      using Cons.IH Cons.prems Cons by (simp add: splitlines_def)
    finally show ?thesis using Cons by simp
  qed
qed

lemma newline_run_line:
  "LF \<notin> set x \<Longrightarrow> rest \<noteq> [] \<Longrightarrow> hd rest \<noteq> LF \<Longrightarrow>
   newline_run (x @ LF # rest) = newline_run rest"
proof (induction x)
  case Nil
  then show ?case by (cases rest) (auto simp: newline_run_skip)
next
  case (Cons a x)
  then have "a \<noteq> LF" by auto
  with Cons show ?case by (simp add: newline_run_skip)
qed

lemma newline_run_clean: "LF \<notin> set x \<Longrightarrow> \<not> newline_run x"
  by (induction x rule: newline_run.induct) auto

lemma py_join_hd:
  "x \<noteq> [] \<Longrightarrow> py_join sep (x # xs) \<noteq> [] \<and> hd (py_join sep (x # xs)) = hd x"
  by (cases xs) auto

lemma py_join_no_run:
  "\<forall>l \<in> set lines. l \<noteq> [] \<and> LF \<notin> set l \<Longrightarrow> \<not> newline_run (py_join [LF] lines)"
proof (induction lines)
  case Nil
  show ?case by simp
next
  case (Cons x lines)
  show ?case
  proof (cases lines)
    case Nil
    with Cons.prems show ?thesis by (simp add: newline_run_clean)
  next
    case (Cons y ys)
    with Cons.prems have y0: "y \<noteq> []" "LF \<notin> set y" by auto
    then have y: "y \<noteq> []" "hd y \<noteq> LF" by (metis hd_in_set)+
    from py_join_hd [OF y(1), of "[LF]" ys] y(2)
    have "py_join [LF] (y # ys) \<noteq> []" "hd (py_join [LF] (y # ys)) \<noteq> LF" by simp_all
    then have "newline_run (x @ LF # py_join [LF] (y # ys)) = newline_run (py_join [LF] (y # ys))"
      using Cons.prems by (intro newline_run_line) simp_all
    with Cons.IH Cons.prems Cons show ?thesis by simp
  qed
qed

lemma rag_index_html_to_text_clean:
  "\<not> newline_run (rag_index_html_to_text soup_text html)
   \<and> \<not> blank_line (rag_index_html_to_text soup_text html)"
proof -
  define cleaned where "cleaned = re_sub_newlines 3 [LF, LF] (soup_text html)"
  define lns where "lns = map py_strip (filter (\<lambda>ln. py_strip ln \<noteq> []) (splitlines cleaned))"
  have out: "rag_index_html_to_text soup_text html = py_join [LF] lns"
    by (simp add: rag_index_html_to_text_def lns_def cleaned_def Let_def)
  have clean: "\<forall>l \<in> set lns. l \<noteq> [] \<and> (\<forall>c \<in> set l. \<not> py_linebreak c)"
  proof
    fix l assume "l \<in> set lns"
    then obtain ln where ln: "ln \<in> set (splitlines cleaned)" "py_strip ln \<noteq> []" "l = py_strip ln"
      by (auto simp: lns_def)
    from splitlines_from_clean [of "[]" cleaned] ln(1)
    have "\<forall>c \<in> set ln. \<not> py_linebreak c" by (simp add: splitlines_def)
    with set_py_strip [of ln] ln(2,3) show "l \<noteq> [] \<and> (\<forall>c \<in> set l. \<not> py_linebreak c)" by auto
  qed
  then have "\<forall>l \<in> set lns. l \<noteq> [] \<and> LF \<notin> set l"
    using CR_LF_linebreak(2) by auto
  then have 1: "\<not> newline_run (py_join [LF] lns)" by (rule py_join_no_run)
  have "\<forall>l \<in> set lns. py_strip l \<noteq> []"
    by (auto simp: lns_def py_strip_twice)
  then have 2: "\<not> blank_line (py_join [LF] lns)"
    by (simp add: blank_line_def splitlines_py_join [OF clean] list_ex_iff)
  from 1 2 out show ?thesis by simp
qed

text \<open>
  C8.  The claim: for every markup input the string returned by the normaliser has no
  run of two or more newlines and no line that is empty after trimming.  Lemma
  \<open>rag_index_html_to_text_clean\<close> shows both for \<^verbatim>\<open>html_to_text\<close> of rag\_index.py, whose
  last pass drops the blank lines, and lemma \<open>html_to_text_no_newline_run\<close> the first
  for \<^verbatim>\<open>html_to_text\<close> of html\_to\_text.py, which has no such pass: for the markup
  \<^verbatim>\<open><p>a\n \nb</p>\<close>, whose only text node is \<^verbatim>\<open>a\n \nb\<close>, it returns that text, with a
  line that holds one space.
\<close>

theorem html_to_text_keeps_blank_line:
  "html_to_text (\<lambda>html. ''a\<newline> \<newline>b'') ''<p>a\<newline> \<newline>b</p>'' = ''a\<newline> \<newline>b''
   \<and> splitlines ''a\<newline> \<newline>b'' = [''a'', '' '', ''b'']
   \<and> py_strip '' '' = ''''
   \<and> blank_line (html_to_text (\<lambda>html. ''a\<newline> \<newline>b'') ''<p>a\<newline> \<newline>b</p>'')"
  by code_simp

end
